theory Spec2Isabelle
  imports Complex_Main
begin

section \<open>Python failures and list access\<close>

text \<open>
  The exceptions the modelled code can raise. A function that can raise returns
  \<open>error + 'a\<close>, with \<open>Inl\<close> for the exception.
\<close>

datatype error = IndexError | TypeError | ZeroDivisionError

definition bind_result :: "error + 'a \<Rightarrow> ('a \<Rightarrow> error + 'b) \<Rightarrow> error + 'b" where
  "bind_result r f = (case r of Inl e \<Rightarrow> Inl e | Inr x \<Rightarrow> f x)"

text \<open>\<open>xs[i]\<close>: a negative index counts from the end, an index out of range raises.\<close>

definition py_index :: "'a list \<Rightarrow> int \<Rightarrow> error + 'a" where
  "py_index xs i =
     (if 0 \<le> i \<and> i < int (length xs) then Inr (xs ! nat i)
      else if i < 0 \<and> - int (length xs) \<le> i then Inr (xs ! nat (int (length xs) + i))
      else Inl IndexError)"

text \<open>\<open>xs[:k]\<close>: a negative stop counts from the end; the slice never raises.\<close>

definition py_slice_to :: "'a list \<Rightarrow> int \<Rightarrow> 'a list" where
  "py_slice_to xs k =
     (if k < 0 then take (nat (int (length xs) + k)) xs else take (nat k) xs)"

text \<open>\<open>bool(x)\<close> for a value that is \<open>None\<close> or a list.\<close>

fun truthy :: "'a list option \<Rightarrow> bool" where
  "truthy None = False"
| "truthy (Some []) = False"
| "truthy (Some (x # xs)) = True"

section \<open>UndoHistory\<close>

text \<open>
  An entry of the undo stack is the two-element list \<open>[undo_actions, redo_actions]\<close>;
  either component is \<open>None\<close> or a list of actions. An action is a callable with its
  arguments; the model keeps actions abstract (type \<open>'a\<close>) and records each call in
  a trace, in the order the calls are made. Actions are taken not to raise and not
  to touch the history they are run from. \<open>Reflect_transaction b\<close> records a call
  of \<open>canvas.reflect_transaction()\<close>, where \<open>b\<close> is the value of \<open>is_saved()\<close> that
  call reads to choose the title mark.
\<close>

type_synonym 'a entry = "'a list option \<times> 'a list option"

datatype 'a event = Call 'a | Reflect_transaction bool

record 'a UndoHistory =
  undo_stack :: "'a entry list"
  index :: int
  saved_index :: int
  trace :: "'a event list"

text \<open>
  The class attributes \<open>index = 0\<close> and \<open>saved_index = 0\<close> are what a new object
  reads; \<open>__init__\<close> only sets the canvas and the stack \<open>[[None, None]]\<close>.
\<close>

definition UndoHistory_init :: "'a UndoHistory" where
  "UndoHistory_init =
     \<lparr>undo_stack = [(None, None)], index = 0, saved_index = 0, trace = []\<rparr>"

definition is_undo :: "'a UndoHistory \<Rightarrow> bool" where
  "is_undo h = (index h > 0)"

definition is_redo :: "'a UndoHistory \<Rightarrow> error + bool" where
  "is_redo h =
     bind_result (py_index (undo_stack h) (index h)) (\<lambda>e. Inr (truthy (snd e)))"

definition is_saved :: "'a UndoHistory \<Rightarrow> bool" where
  "is_saved h = (index h = saved_index h)"

definition set_saved :: "'a UndoHistory \<Rightarrow> 'a UndoHistory" where
  "set_saved h = h\<lparr>saved_index := index h\<rparr>"

definition reflect_transaction :: "'a UndoHistory \<Rightarrow> 'a UndoHistory" where
  "reflect_transaction h = h\<lparr>trace := trace h @ [Reflect_transaction (is_saved h)]\<rparr>"

text \<open>
  \<open>add_transaction\<close>: the slice, then \<open>undo_stack[-1][1] = transaction[1]\<close> (an
  IndexError on an empty stack), the append, the increment and the notification.
\<close>

definition add_transaction ::
  "'a UndoHistory \<Rightarrow> 'a list \<times> 'a list \<Rightarrow> error + 'a UndoHistory" where
  "add_transaction h t =
     (let st = (if index h < int (length (undo_stack h)) - 1
                then py_slice_to (undo_stack h) (index h + 1)
                else undo_stack h)
      in case st of
           [] \<Rightarrow> Inl IndexError
         | _ # _ \<Rightarrow>
             Inr (reflect_transaction
               (h\<lparr>undo_stack :=
                     st[length st - 1 := (fst (last st), Some (snd t))]
                       @ [(Some (fst t), None)],
                   index := index h + 1\<rparr>)))"

text \<open>
  \<open>undo\<close>: iterating over \<open>None\<close> raises TypeError; otherwise every action of the
  entry is called in order, then the index moves and the canvas is notified.
\<close>

definition undo :: "'a UndoHistory \<Rightarrow> error + 'a UndoHistory" where
  "undo h =
     (if is_undo h then
        bind_result (py_index (undo_stack h) (index h)) (\<lambda>e.
          case fst e of
            None \<Rightarrow> Inl TypeError
          | Some acts \<Rightarrow>
              Inr (reflect_transaction
                (h\<lparr>index := index h - 1, trace := trace h @ map Call acts\<rparr>)))
      else Inr h)"

definition redo :: "'a UndoHistory \<Rightarrow> error + 'a UndoHistory" where
  "redo h =
     bind_result (is_redo h) (\<lambda>b.
       if b then
         bind_result (py_index (undo_stack h) (index h)) (\<lambda>e.
           case snd e of
             None \<Rightarrow> Inl TypeError
           | Some acts \<Rightarrow>
               Inr (reflect_transaction
                 (h\<lparr>index := index h + 1, trace := trace h @ map Call acts\<rparr>)))
       else Inr h)"

text \<open>The calls a client can make on a history, and a sequence of them.\<close>

datatype 'a call = Add_transaction "'a list \<times> 'a list" | Undo | Redo | Set_saved

fun apply_call :: "'a UndoHistory \<Rightarrow> 'a call \<Rightarrow> error + 'a UndoHistory" where
  "apply_call h (Add_transaction t) = add_transaction h t"
| "apply_call h Undo = undo h"
| "apply_call h Redo = redo h"
| "apply_call h Set_saved = Inr (set_saved h)"

fun run_calls :: "'a UndoHistory \<Rightarrow> 'a call list \<Rightarrow> error + 'a UndoHistory" where
  "run_calls h [] = Inr h"
| "run_calls h (c # cs) = bind_result (apply_call h c) (\<lambda>h'. run_calls h' cs)"

text \<open>
  The invariant of the history: the index points into the stack, the tip has no redo
  actions, and every entry but the sentinel at position 0 has a list of undo actions.
\<close>

definition hist_inv :: "'a UndoHistory \<Rightarrow> bool" where
  "hist_inv h =
     (0 \<le> index h \<and> index h < int (length (undo_stack h)) \<and>
      snd (last (undo_stack h)) = None \<and>
      list_all (\<lambda>e. fst e \<noteq> None) (tl (undo_stack h)))"


section \<open>Geometry\<close>

type_synonym bbox = "real \<times> real \<times> real \<times> real"
type_synonym point = "real \<times> real"

definition NO_BBOX :: bbox where
  "NO_BBOX = (0, 0, 0, 0)"

fun in_bbox :: "bbox \<Rightarrow> point \<Rightarrow> bool" where
  "in_bbox (b0, b1, b2, b3) (p0, p1) = ((b0 < p0 \<and> p0 < b2) \<and> (b1 < p1 \<and> p1 < b3))"

section \<open>Colour labels\<close>













section \<open>Canvas\<close>

text \<open>
  The module \<open>cp2.config\<close> is not among the sources; the values the modelled code
  reads from it are parameters. Sizes in pixels are integers.
\<close>

record config =
  canvas_border :: int
  cell_height :: int
  cell_width :: int
  scroll_hover :: int
  scroll_normal :: int
  scroll_fg :: "real list"
  addbutton_fg :: "real list"
  mouse_scroll_sensitivity :: real

text \<open>
  The numeric fields of \<open>Canvas\<close>, with \<open>refreshes\<close> counting the calls of
  \<open>dc.refresh()\<close>. \<open>dy\<close> becomes a float once a scroll event adds to it.
\<close>

record Canvas =
  dy :: real
  max_dy :: int
  width :: int
  height :: int
  virtual_h :: int
  cell_max :: int
  refreshes :: nat

definition Canvas_init :: Canvas where
  "Canvas_init =
     \<lparr>dy = 0, max_dy = 0, width = 0, height = 0, virtual_h = 0, cell_max = 5,
      refreshes = 0\<rparr>"

definition on_scroll :: "config \<Rightarrow> Canvas \<Rightarrow> real \<Rightarrow> Canvas" where
  "on_scroll cfg c scroll =
     (let c1 = c\<lparr>dy := dy c + scroll * mouse_scroll_sensitivity cfg\<rparr>;
          c2 = (if dy c1 < 0 \<or> virtual_h c1 \<le> height c1 then c1\<lparr>dy := 0\<rparr>
                else if virtual_h c1 > height c1 \<and>
                        dy c1 > of_int (virtual_h c1 - height c1)
                then c1\<lparr>dy := of_int (virtual_h c1 - height c1)\<rparr>
                else c1)
      in c2\<lparr>refreshes := refreshes c2 + 1\<rparr>)"

text \<open>
  \<open>Canvas.paint\<close> up to the point where the surface is sized: \<open>wh\<close> is what
  \<open>dc.get_size()\<close> returns and \<open>cell_num\<close> the number of colours of the document.
  \<open>//\<close> and \<open>/\<close> raise on a zero divisor. The objects are painted afterwards
  (\<open>ScrollObj_paint\<close>, \<open>AddButtonObj_paint\<close>).
\<close>

definition Canvas_paint :: "config \<Rightarrow> int \<times> int \<Rightarrow> nat \<Rightarrow> Canvas \<Rightarrow> error + Canvas" where
  "Canvas_paint cfg wh cell_num c =
     (let w = fst wh; h = snd wh;
          border = canvas_border cfg;
          cell_h = cell_height cfg
      in if cell_width cfg = 0 then Inl ZeroDivisionError
         else
           let cm = (w - 2 * canvas_border cfg) div cell_width cfg
           in if cm = 0 then Inl ZeroDivisionError
              else
                let vh = 2 * border + \<lceil>real cell_num / real_of_int cm\<rceil> * cell_h;
                    m = vh - h;
                    md = (if m > 0 then m else 0)
                in Inr (c\<lparr>cell_max := cm, virtual_h := vh, max_dy := md,
                         dy := min (dy c) (of_int md), width := w, height := h\<rparr>))"

text \<open>The calls made on the Cairo context, in order.\<close>

datatype draw =
    Set_source_rgb "real list"
  | Set_source_rgba "real list"
  | Rectangle real real real real
  | Fill
  | Stroke
  | Move_to real real
  | Line_to real real
  | New_path
  | Close_path
  | Arc real real real real real
  | Set_line_width real
  | Set_dash "real list"
  | Set_line_cap_round

definition draw_rounded_rect :: "bbox \<Rightarrow> real \<Rightarrow> draw list" where
  "draw_rounded_rect rect radius =
     (case rect of (x, y, w, h) \<Rightarrow>
        [Move_to x y, New_path,
         Arc (x + w - radius) (y + radius) radius (- pi / 2) 0,
         Arc (x + w - radius) (y + h - radius) radius 0 (pi / 2),
         Arc (x + radius) (y + h - radius) radius (pi / 2) pi,
         Arc (x + radius) (y + radius) radius pi (3 * pi / 2),
         Close_path])"

record CanvasObj =
  bbox :: bbox
  active :: bool
  hover :: bool

record ScrollObj = CanvasObj +
  tbbox :: bbox
  coef :: real

definition ScrollObj_init :: ScrollObj where
  "ScrollObj_init =
     \<lparr>bbox = NO_BBOX, active = True, hover = False, tbbox = NO_BBOX, coef = 1\<rparr>"

text \<open>
  \<open>ScrollObj.paint\<close> returns the object and the calls it adds to the context.
  \<open>h / virtual_h\<close> raises when \<open>virtual_h\<close> is 0.
\<close>

definition ScrollObj_paint :: "config \<Rightarrow> Canvas \<Rightarrow> ScrollObj \<Rightarrow> error + ScrollObj \<times> draw list" where
  "ScrollObj_paint cfg c s =
     (let w = real_of_int (width c); h = real_of_int (height c);
          sw = real_of_int (if hover s then scroll_hover cfg else scroll_normal cfg);
          s1 = s\<lparr>bbox := (w - real_of_int (scroll_hover cfg), 0, w, h),
                 tbbox := NO_BBOX, coef := 1\<rparr>
      in if virtual_h c > height c then
           if virtual_h c = 0 then Inl ZeroDivisionError
           else
             let cf = h / real_of_int (virtual_h c);
                 rect_h = h * cf;
                 rect_w = sw;
                 y = dy c + dy c * cf
             in Inr (s1\<lparr>coef := cf, tbbox := (w - rect_w, y, w, y + rect_h),
                        active := True\<rparr>,
                     [Set_source_rgba (scroll_fg cfg), Rectangle (w - rect_w) y w rect_h,
                      Fill])
         else Inr (s1\<lparr>active := False\<rparr>, []))"

text \<open>
  \<open>AddButtonObj.paint\<close>: the button takes the cell after the last colour. The row
  count is guarded by \<open>if cell_max else 0\<close>; the other divisions are by constants.
\<close>

definition AddButtonObj_paint :: "config \<Rightarrow> Canvas \<Rightarrow> nat \<Rightarrow> CanvasObj \<Rightarrow> CanvasObj \<times> draw list" where
  "AddButtonObj_paint cfg c cell_num b =
     (let cell_h = cell_height cfg; cell_w = cell_width cfg;
          border = canvas_border cfg;
          y_count = (if cell_max c \<noteq> 0 then int cell_num div cell_max c else 0);
          x_count = int cell_num - cell_max c * y_count;
          x = real_of_int (border + x_count * cell_w);
          y = real_of_int (border + y_count * cell_h);
          rect = (x + 10, y + 10, real_of_int cell_w - 20, real_of_int cell_h - 20);
          sz = real_of_int (cell_h div 3);
          cw = real_of_int cell_w; ch = real_of_int cell_h
      in (b\<lparr>bbox := (x + 10, y + 10 - dy c,
                      x + 10 + (cw - 20), y + 10 + (ch - 20) - dy c)\<rparr>,
          [Set_source_rgb (addbutton_fg cfg)] @ draw_rounded_rect rect 20 @
          [Set_line_width 4, Set_dash [15, 8], Stroke,
           Set_line_width 8, Set_line_cap_round, Set_dash [],
           Move_to (x + cw / 2) (y + ch / 2 - sz / 2),
           Line_to (x + cw / 2) (y + ch / 2 + sz / 2), Stroke,
           Move_to (x + cw / 2 - sz / 2) (y + ch / 2),
           Line_to (x + cw / 2 + sz / 2) (y + ch / 2), Stroke]))"

section \<open>Properties of UndoHistory\<close>


lemma py_index_in_range:
  "0 \<le> i \<Longrightarrow> i < int (length xs) \<Longrightarrow> py_index xs i = Inr (xs ! nat i)"
  by (simp add: py_index_def)

lemma py_slice_to_nonneg: "0 \<le> k \<Longrightarrow> py_slice_to xs k = take (nat k) xs"
  by (simp add: py_slice_to_def)

lemma hist_inv_init: "hist_inv UndoHistory_init"
  by (simp add: hist_inv_def UndoHistory_init_def)

text \<open>What \<open>add_transaction\<close> returns on a history that satisfies the invariant.\<close>

lemma add_transaction_inv_eq:
  assumes "hist_inv h"
  shows "add_transaction h t =
     Inr (reflect_transaction
       (h\<lparr>undo_stack := take (nat (index h)) (undo_stack h)
              @ [(fst (undo_stack h ! nat (index h)), Some (snd t)), (Some (fst t), None)],
          index := index h + 1\<rparr>))"
proof -
  let ?st = "undo_stack h" and ?i = "nat (index h)"
  from assms have i: "0 \<le> index h" "?i < length ?st"
    by (auto simp: hist_inv_def)
  define st where "st = (if index h < int (length ?st) - 1
                then py_slice_to ?st (index h + 1) else ?st)"
  have "st = take (Suc ?i) ?st"
  proof (cases "index h < int (length ?st) - 1")
    case True
    then show ?thesis
      using i by (simp add: st_def py_slice_to_nonneg nat_add_distrib)
  next
    case False
    with i have "Suc ?i = length ?st" by linarith
    with False show ?thesis by (simp add: st_def)
  qed
  with i have st: "st = take ?i ?st @ [?st ! ?i]"
    by (simp add: take_Suc_conv_app_nth)
  have lst: "last st = ?st ! ?i"
    by (simp add: st)
  have upd: "st[length st - Suc 0 := x] = take ?i ?st @ [x]" for x
    using i by (simp add: st list_update_append)
  have ne: "st \<noteq> []"
    by (simp add: st)
  show ?thesis
    unfolding add_transaction_def st_def[symmetric] Let_def
    by (simp add: list.case_eq_if ne upd lst)
qed

lemma list_all_tl_iff:
  "list_all P (tl xs) \<longleftrightarrow> (\<forall>k. 0 < k \<and> k < length xs \<longrightarrow> P (xs ! k))"
proof (cases xs)
  case Nil
  then show ?thesis by simp
next
  case (Cons y ys)
  have "(\<forall>n<length ys. P (ys ! n)) \<longleftrightarrow> (\<forall>k. 0 < k \<and> k < Suc (length ys) \<longrightarrow> P ((y # ys) ! k))"
  proof
    assume a: "\<forall>n<length ys. P (ys ! n)"
    show "\<forall>k. 0 < k \<and> k < Suc (length ys) \<longrightarrow> P ((y # ys) ! k)"
    proof (intro allI impI)
      fix k assume "0 < k \<and> k < Suc (length ys)"
      then obtain n where "k = Suc n" "n < length ys" by (cases k) auto
      with a show "P ((y # ys) ! k)" by simp
    qed
  next
    assume a: "\<forall>k. 0 < k \<and> k < Suc (length ys) \<longrightarrow> P ((y # ys) ! k)"
    show "\<forall>n<length ys. P (ys ! n)"
    proof (intro allI impI)
      fix n assume "n < length ys"
      with a have "P ((y # ys) ! Suc n)" by blast
      then show "P (ys ! n)" by simp
    qed
  qed
  with Cons show ?thesis by (simp add: list_all_length)
qed

lemma hist_inv_reflect [simp]: "hist_inv (reflect_transaction h) = hist_inv h"
  by (simp add: hist_inv_def reflect_transaction_def)

lemma add_transaction_inv:
  assumes "hist_inv h"
  shows "\<exists>h'. add_transaction h t = Inr h' \<and> hist_inv h'"
proof -
  let ?st = "undo_stack h" and ?i = "nat (index h)"
  let ?st' = "take ?i ?st @ [(fst (?st ! ?i), Some (snd t)), (Some (fst t), None)]"
  from assms have i: "0 \<le> index h" "?i < length ?st"
    and some: "\<And>k. 0 < k \<Longrightarrow> k < length ?st \<Longrightarrow> fst (?st ! k) \<noteq> None"
    by (auto simp: hist_inv_def list_all_tl_iff)
  have len: "length ?st' = ?i + 2" using i by simp
  have "fst (?st' ! k) \<noteq> None" if k: "0 < k" "k < ?i + 2" for k
  proof -
    consider "k < ?i" | "k = ?i" | "k = Suc ?i" using k by linarith
    then show ?thesis
    proof cases
      case 1 with k i some show ?thesis by (simp add: nth_append)
    next
      case 2 with k i some show ?thesis by (simp add: nth_append)
    next
      case 3 with i show ?thesis by (simp add: nth_append)
    qed
  qed
  then have "list_all (\<lambda>e. fst e \<noteq> None) (tl ?st')"
    unfolding list_all_tl_iff len by blast
  then have "hist_inv (h\<lparr>undo_stack := ?st', index := index h + 1\<rparr>)"
    using i by (simp add: hist_inv_def)
  then show ?thesis
    by (simp add: add_transaction_inv_eq[OF assms])
qed

lemma undo_inv_eq:
  assumes "hist_inv h" "is_undo h"
  shows "\<exists>acts. fst (undo_stack h ! nat (index h)) = Some acts \<and>
     undo h = Inr (reflect_transaction
       (h\<lparr>index := index h - 1, trace := trace h @ map Call acts\<rparr>))"
proof -
  from assms have i: "0 < index h" "index h < int (length (undo_stack h))"
    by (auto simp: hist_inv_def is_undo_def)
  with assms(1) have "fst (undo_stack h ! nat (index h)) \<noteq> None"
    by (simp add: hist_inv_def list_all_tl_iff)
  then obtain acts where "fst (undo_stack h ! nat (index h)) = Some acts" by blast
  then show ?thesis
    using i assms(2) by (simp add: undo_def bind_result_def py_index_in_range)
qed

lemma undo_inv:
  assumes "hist_inv h"
  shows "\<exists>h'. undo h = Inr h' \<and> hist_inv h'"
proof (cases "is_undo h")
  case True
  from undo_inv_eq[OF assms True] obtain acts where
    u: "undo h = Inr (reflect_transaction
       (h\<lparr>index := index h - 1, trace := trace h @ map Call acts\<rparr>))" by blast
  from assms True have "hist_inv (h\<lparr>index := index h - 1, trace := trace h @ map Call acts\<rparr>)"
    by (simp add: hist_inv_def is_undo_def)
  with u show ?thesis by simp
next
  case False
  with assms show ?thesis by (simp add: undo_def)
qed

lemma is_redo_inv_eq:
  "hist_inv h \<Longrightarrow> is_redo h = Inr (truthy (snd (undo_stack h ! nat (index h))))"
  by (simp add: is_redo_def bind_result_def py_index_in_range hist_inv_def)

lemma redo_inv:
  assumes "hist_inv h"
  shows "\<exists>h'. redo h = Inr h' \<and> hist_inv h'"
proof (cases "truthy (snd (undo_stack h ! nat (index h)))")
  case False
  with assms show ?thesis by (simp add: redo_def is_redo_inv_eq bind_result_def)
next
  case True
  let ?st = "undo_stack h" and ?i = "nat (index h)"
  from assms have i: "0 \<le> index h" "?i < length ?st" and l: "snd (last ?st) = None"
    by (auto simp: hist_inv_def)
  from True obtain acts where acts: "snd (?st ! ?i) = Some acts"
    by (cases "snd (?st ! ?i)") auto
  have "?i \<noteq> length ?st - 1"
  proof
    assume "?i = length ?st - 1"
    moreover from i have "?st \<noteq> []" by auto
    ultimately have "last ?st = ?st ! ?i" by (simp add: last_conv_nth)
    with l acts show False by simp
  qed
  with i have "index h + 1 < int (length ?st)" by linarith
  with assms have "hist_inv (h\<lparr>index := index h + 1, trace := trace h @ map Call acts\<rparr>)"
    by (simp add: hist_inv_def)
  then show ?thesis
    using True acts i
    by (simp add: redo_def is_redo_inv_eq[OF assms] bind_result_def py_index_in_range)
qed

lemma set_saved_inv: "hist_inv h \<Longrightarrow> hist_inv (set_saved h)"
  by (simp add: hist_inv_def set_saved_def)

lemma apply_call_inv:
  "hist_inv h \<Longrightarrow> \<exists>h'. apply_call h c = Inr h' \<and> hist_inv h'"
  by (cases c) (simp_all add: add_transaction_inv undo_inv redo_inv set_saved_inv)

lemma run_calls_inv:
  "hist_inv h \<Longrightarrow> \<exists>h'. run_calls h cs = Inr h' \<and> hist_inv h'"
proof (induction cs arbitrary: h)
  case Nil
  then show ?case by simp
next
  case (Cons c cs)
  from apply_call_inv[OF Cons.prems] obtain h1 where
    h1: "apply_call h c = Inr h1" "hist_inv h1" by blast
  from Cons.IH[OF h1(2)] h1(1) show ?case
    by (simp add: bind_result_def)
qed


lemma run_calls_append:
  "run_calls h (cs @ ds) = bind_result (run_calls h cs) (\<lambda>h'. run_calls h' ds)"
proof (induction cs arbitrary: h)
  case Nil
  show ?case by (simp add: bind_result_def)
next
  case (Cons c cs)
  show ?case
    by (cases "apply_call h c") (simp_all add: bind_result_def Cons.IH)
qed

lemma truthy_Some: "truthy (Some xs) = (xs \<noteq> [])"
  by (cases xs) simp_all

lemma adds_from_init:
  "\<exists>h. run_calls UndoHistory_init (map Add_transaction ts) = Inr h \<and> hist_inv h \<and>
       index h = int (length ts) \<and> length (undo_stack h) = Suc (length ts) \<and>
       (\<forall>k<length ts. snd (undo_stack h ! k) = Some (snd (ts ! k)))"
proof (induction ts rule: rev_induct)
  case Nil
  show ?case by (simp add: hist_inv_init) (simp add: UndoHistory_init_def)
next
  case (snoc t ts)
  then obtain h where h: "run_calls UndoHistory_init (map Add_transaction ts) = Inr h"
    "hist_inv h" "index h = int (length ts)" "length (undo_stack h) = Suc (length ts)"
    "\<And>k. k < length ts \<Longrightarrow> snd (undo_stack h ! k) = Some (snd (ts ! k))"
    by blast
  let ?st' = "take (length ts) (undo_stack h)
       @ [(fst (undo_stack h ! length ts), Some (snd t)), (Some (fst t), None)]"
  let ?h' = "reflect_transaction (h\<lparr>undo_stack := ?st', index := index h + 1\<rparr>)"
  have eq: "add_transaction h t = Inr ?h'"
    using add_transaction_inv_eq[OF h(2), of t] h(3) by simp
  from add_transaction_inv[OF h(2), of t] eq have inv: "hist_inv ?h'" by simp
  have run: "run_calls UndoHistory_init (map Add_transaction (ts @ [t])) = Inr ?h'"
    by (simp add: run_calls_append h(1) bind_result_def eq)
  have nth: "snd (?st' ! k) = Some (snd ((ts @ [t]) ! k))" if k: "k < length (ts @ [t])" for k
  proof (cases "k < length ts")
    case True
    with h(4) h(5) show ?thesis by (simp add: nth_append)
  next
    case False
    with k have "k = length ts" by simp
    with h(4) show ?thesis by (simp add: nth_append)
  qed
  have "index ?h' = int (length (ts @ [t]))" "length (undo_stack ?h') = Suc (length (ts @ [t]))"
    "\<forall>k<length (ts @ [t]). snd (undo_stack ?h' ! k) = Some (snd ((ts @ [t]) ! k))"
    using h(3) h(4) nth by (simp_all add: reflect_transaction_def)
  with run inv show ?case by blast
qed

lemma undos_from_inv:
  "hist_inv h \<Longrightarrow> int M \<le> index h \<Longrightarrow>
   \<exists>h'. run_calls h (replicate M Undo) = Inr h' \<and> hist_inv h' \<and>
        undo_stack h' = undo_stack h \<and> index h' = index h - int M"
proof (induction M arbitrary: h)
  case 0
  then show ?case by simp
next
  case (Suc M)
  then have u: "is_undo h" by (simp add: is_undo_def)
  from undo_inv_eq[OF Suc.prems(1) u] obtain acts where
    eq: "undo h = Inr (reflect_transaction
       (h\<lparr>index := index h - 1, trace := trace h @ map Call acts\<rparr>))" by blast
  let ?h1 = "reflect_transaction (h\<lparr>index := index h - 1, trace := trace h @ map Call acts\<rparr>)"
  from undo_inv[OF Suc.prems(1)] eq have inv1: "hist_inv ?h1" by simp
  have i1: "index ?h1 = index h - 1" and s1: "undo_stack ?h1 = undo_stack h"
    by (simp_all add: reflect_transaction_def)
  from Suc.prems(2) i1 have "int M \<le> index ?h1" by simp
  from Suc.IH[OF inv1 this] obtain h' where
    h': "run_calls ?h1 (replicate M Undo) = Inr h'" "hist_inv h'"
        "undo_stack h' = undo_stack ?h1" "index h' = index ?h1 - int M" by blast
  have "run_calls h (replicate (Suc M) Undo) = Inr h'"
    by (simp add: eq bind_result_def h'(1))
  with h' i1 s1 show ?case by simp
qed

text \<open>
  C1 (as amended). After \<open>N\<close> calls of \<open>add_transaction\<close> on a new history and then
  \<open>M \<le> N\<close> calls of \<open>undo\<close>, every call returns, \<open>index\<close> is \<open>N - M\<close>, and
  \<open>is_redo()\<close> is true exactly when \<open>M > 0\<close> and the redo list of the transaction
  that was undone last (the one at position \<open>N - M\<close> of the sequence) is not empty.
\<close>

theorem adds_then_undos:
  assumes "M \<le> length ts"
  shows "\<exists>h. run_calls UndoHistory_init (map Add_transaction ts @ replicate M Undo) = Inr h \<and>
     index h = int (length ts) - int M \<and>
     is_redo h = Inr (0 < M \<and> snd (ts ! (length ts - M)) \<noteq> [])"
proof -
  from adds_from_init[of ts] obtain h0 where
    h0: "run_calls UndoHistory_init (map Add_transaction ts) = Inr h0" "hist_inv h0"
      "index h0 = int (length ts)" "length (undo_stack h0) = Suc (length ts)"
      "\<And>k. k < length ts \<Longrightarrow> snd (undo_stack h0 ! k) = Some (snd (ts ! k))"
    by blast
  from assms h0(3) have "int M \<le> index h0" by simp
  from undos_from_inv[OF h0(2) this] obtain h where
    h: "run_calls h0 (replicate M Undo) = Inr h" "hist_inv h"
       "undo_stack h = undo_stack h0" "index h = index h0 - int M" by blast
  have run: "run_calls UndoHistory_init (map Add_transaction ts @ replicate M Undo) = Inr h"
    by (simp add: run_calls_append h0(1) bind_result_def h(1))
  have idx: "nat (index h) = length ts - M"
    using h(4) h0(3) assms by simp
  have "truthy (snd (undo_stack h ! nat (index h))) =
          (0 < M \<and> snd (ts ! (length ts - M)) \<noteq> [])"
  proof (cases "M = 0")
    case True
    from h0(4) have "undo_stack h0 \<noteq> []" by auto
    then have "last (undo_stack h0) = undo_stack h0 ! length ts"
      by (simp add: last_conv_nth h0(4))
    with h0(2) have "snd (undo_stack h0 ! length ts) = None"
      by (simp add: hist_inv_def)
    with True idx h(3) show ?thesis by simp
  next
    case False
    with assms have "length ts - M < length ts" by simp
    from h0(5)[OF this] False idx h(3) show ?thesis
      by (simp add: truthy_Some)
  qed
  with run h(4) h0(3) is_redo_inv_eq[OF h(2)] show ?thesis by simp
qed

theorem adds_then_undos_witness:
  "(1::nat) \<le> length [([10::nat], [20::nat]), ([11], [21])] \<and>
   (\<exists>h. run_calls UndoHistory_init
          (map Add_transaction [([10::nat], [20::nat]), ([11], [21])] @ replicate 1 Undo) = Inr h \<and>
        index h = 1 \<and> is_redo h = Inr True)"
  using adds_then_undos[of 1 "[([10::nat], [20::nat]), ([11], [21])]"] by simp

text \<open>
  C1 as stated fails: one transaction with an empty redo list, undone once, leaves
  \<open>is_redo()\<close> false although \<open>M = 1 > 0\<close>.
\<close>

theorem is_redo_after_undo_counterexample:
  "bind_result
     (run_calls (UndoHistory_init :: nat UndoHistory)
        (map Add_transaction [([7], [])] @ replicate 1 Undo)) is_redo
   \<noteq> Inr (0 < (1::nat))"
  by (simp add: bind_result_def UndoHistory_init_def add_transaction_def undo_def is_undo_def
      is_redo_def py_index_def py_slice_to_def reflect_transaction_def is_saved_def Let_def)


text \<open>
  C2. On a history that satisfies the invariant and has \<open>is_undo()\<close>, \<open>undo()\<close> and
  then \<open>add_transaction(t)\<close> both return, and afterwards \<open>is_redo()\<close> is false: the
  stack is cut after the entry the undo went back to, that entry takes the redo
  actions of \<open>t\<close> in place of the ones it had, and the new tip follows it. Every
  entry after it is dropped.
\<close>

theorem undo_then_add_discards_redo:
  assumes "hist_inv h" "is_undo h"
  shows "\<exists>h1 h2. undo h = Inr h1 \<and> add_transaction h1 t = Inr h2 \<and>
     is_redo h2 = Inr False \<and> index h2 = index h \<and>
     undo_stack h2 =
       take (nat (index h) - 1) (undo_stack h)
         @ [(fst (undo_stack h ! (nat (index h) - 1)), Some (snd t)), (Some (fst t), None)]"
proof -
  from undo_inv_eq[OF assms] obtain acts where
    u: "undo h = Inr (reflect_transaction
       (h\<lparr>index := index h - 1, trace := trace h @ map Call acts\<rparr>))" by blast
  let ?h1 = "reflect_transaction (h\<lparr>index := index h - 1, trace := trace h @ map Call acts\<rparr>)"
  from undo_inv[OF assms(1)] u have inv1: "hist_inv ?h1" by simp
  have f1: "index ?h1 = index h - 1" "undo_stack ?h1 = undo_stack h"
    by (simp_all add: reflect_transaction_def)
  from assms(2) have n: "nat (index h - 1) = nat (index h) - 1"
    by (simp add: is_undo_def nat_diff_distrib)
  let ?st2 = "take (nat (index h) - 1) (undo_stack h)
         @ [(fst (undo_stack h ! (nat (index h) - 1)), Some (snd t)), (Some (fst t), None)]"
  let ?h2 = "reflect_transaction (?h1\<lparr>undo_stack := ?st2, index := index ?h1 + 1\<rparr>)"
  have a: "add_transaction ?h1 t = Inr ?h2"
    using add_transaction_inv_eq[OF inv1, of t] by (simp only: f1 n)
  from add_transaction_inv[OF inv1, of t] a have inv2: "hist_inv ?h2" by simp
  have f2: "index ?h2 = index h" "undo_stack ?h2 = ?st2"
    by (simp_all add: reflect_transaction_def)
  from assms have len: "nat (index h) - 1 < length (undo_stack h)" "0 < index h"
    by (auto simp: hist_inv_def is_undo_def)
  have "nat (index h) = Suc (nat (index h) - 1)"
    using len(2) by simp
  then have "snd (?st2 ! nat (index h)) = None"
    using len(1) by (simp add: nth_append)
  moreover have "is_redo ?h2 = Inr (truthy (snd (undo_stack ?h2 ! nat (index ?h2))))"
    by (rule is_redo_inv_eq[OF inv2])
  ultimately have "is_redo ?h2 = Inr False"
    by (simp only: f2 truthy.simps)
  with u a f2 show ?thesis by blast
qed

theorem undo_then_add_discards_redo_witness:
  "hist_inv \<lparr>undo_stack = [(None, Some [20::nat]), (Some [10], None)],
             index = 1, saved_index = 0, trace = []\<rparr> \<and>
   is_undo \<lparr>undo_stack = [(None, Some [20::nat]), (Some [10], None)],
             index = 1, saved_index = 0, trace = []\<rparr> \<and>
   (\<exists>h1 h2. undo \<lparr>undo_stack = [(None, Some [20::nat]), (Some [10], None)],
             index = 1, saved_index = 0, trace = []\<rparr> = Inr h1 \<and>
      add_transaction h1 ([11], [21]) = Inr h2 \<and> is_redo h2 = Inr False \<and>
      undo_stack h2 = [(None, Some [21]), (Some [11], None)])"
proof -
  let ?h = "\<lparr>undo_stack = [(None, Some [20::nat]), (Some [10], None)],
             index = 1, saved_index = 0, trace = []\<rparr>"
  have i: "hist_inv ?h" by (simp add: hist_inv_def)
  have u: "is_undo ?h" by (simp add: is_undo_def)
  from undo_then_add_discards_redo[OF i u, of "([11], [21])"] i u
  show ?thesis by auto
qed

text \<open>
  C10. \<open>is_redo()\<close> tests the redo list for truthiness: after
  \<open>add_transaction((u, []))\<close> and \<open>undo()\<close>, \<open>is_redo()\<close> is false and \<open>redo()\<close>
  returns the history as it is (index, stack and trace unchanged).
\<close>

theorem empty_redo_list_is_no_redo:
  assumes "hist_inv h"
  shows "\<exists>h1 h2. add_transaction h (u, []) = Inr h1 \<and> undo h1 = Inr h2 \<and>
     is_redo h2 = Inr False \<and> redo h2 = Inr h2"
proof -
  let ?i = "nat (index h)"
  let ?st1 = "take ?i (undo_stack h)
       @ [(fst (undo_stack h ! ?i), Some []), (Some u, None)]"
  let ?h1 = "reflect_transaction (h\<lparr>undo_stack := ?st1, index := index h + 1\<rparr>)"
  have a: "add_transaction h (u, []) = Inr ?h1"
    using add_transaction_inv_eq[OF assms, of "(u, [])"] by simp
  from add_transaction_inv[OF assms, of "(u, [])"] a have inv1: "hist_inv ?h1" by simp
  from assms have i: "0 \<le> index h" "?i < length (undo_stack h)"
    by (auto simp: hist_inv_def)
  then have un: "is_undo ?h1"
    by (simp add: is_undo_def reflect_transaction_def)
  from undo_inv_eq[OF inv1 un] obtain acts where
    u: "undo ?h1 = Inr (reflect_transaction
       (?h1\<lparr>index := index ?h1 - 1, trace := trace ?h1 @ map Call acts\<rparr>))" by blast
  let ?h2 = "reflect_transaction (?h1\<lparr>index := index ?h1 - 1, trace := trace ?h1 @ map Call acts\<rparr>)"
  from undo_inv[OF inv1] u have inv2: "hist_inv ?h2" by simp
  have f2: "index ?h2 = index h" "undo_stack ?h2 = ?st1"
    by (simp_all add: reflect_transaction_def)
  have "snd (?st1 ! ?i) = Some []"
    using i by (simp add: nth_append)
  moreover have "is_redo ?h2 = Inr (truthy (snd (undo_stack ?h2 ! nat (index ?h2))))"
    by (rule is_redo_inv_eq[OF inv2])
  ultimately have r: "is_redo ?h2 = Inr False"
    by (simp only: f2 truthy.simps)
  then have "redo ?h2 = Inr ?h2"
    by (simp add: redo_def bind_result_def)
  with a u r show ?thesis by blast
qed

theorem empty_redo_list_is_no_redo_witness:
  "hist_inv (UndoHistory_init :: nat UndoHistory) \<and>
   (\<exists>h1 h2. add_transaction (UndoHistory_init :: nat UndoHistory) ([5], []) = Inr h1 \<and>
      undo h1 = Inr h2 \<and> is_redo h2 = Inr False \<and> redo h2 = Inr h2 \<and>
      index h2 = 0 \<and> undo_stack h2 = [(None, Some []), (Some [5], None)])"
proof -
  have i: "hist_inv (UndoHistory_init :: nat UndoHistory)"
    by (simp add: hist_inv_def UndoHistory_init_def)
  from empty_redo_list_is_no_redo[OF i, of "[5]"] i show ?thesis
    by (simp add: UndoHistory_init_def add_transaction_def undo_def is_undo_def
      py_index_def reflect_transaction_def is_saved_def bind_result_def Let_def)
qed

text \<open>
  C9. Every sequence of \<open>add_transaction\<close>, \<open>undo\<close>, \<open>redo\<close> (and \<open>set_saved\<close>)
  calls on a new history returns, and afterwards \<open>0 \<le> index \<le> len(undo_stack) - 1\<close>
  and the last entry of the stack has \<open>None\<close> for its redo actions; at the tip
  \<open>redo()\<close> changes nothing, so it never moves \<open>index\<close> past the tip.
\<close>

theorem UndoHistory_invariant:
  "\<exists>h. run_calls UndoHistory_init cs = Inr h \<and>
     0 \<le> index h \<and> index h \<le> int (length (undo_stack h)) - 1 \<and>
     snd (last (undo_stack h)) = None \<and>
     (index h = int (length (undo_stack h)) - 1 \<longrightarrow> redo h = Inr h)"
proof -
  from run_calls_inv[OF hist_inv_init, of cs] obtain h where
    h: "run_calls UndoHistory_init cs = Inr h" "hist_inv h" by blast
  have tip: "redo h = Inr h" if "index h = int (length (undo_stack h)) - 1"
  proof -
    from h(2) have "undo_stack h \<noteq> []" by (auto simp: hist_inv_def)
    moreover from that have "nat (index h) = length (undo_stack h) - 1"
      by arith
    ultimately have "undo_stack h ! nat (index h) = last (undo_stack h)"
      by (simp add: last_conv_nth)
    with h(2) have "is_redo h = Inr False"
      by (simp add: is_redo_inv_eq) (simp add: hist_inv_def)
    then show ?thesis by (simp add: redo_def bind_result_def)
  qed
  from h(2) have "0 \<le> index h" "index h \<le> int (length (undo_stack h)) - 1"
    "snd (last (undo_stack h)) = None"
    by (auto simp: hist_inv_def)
  with h(1) tip show ?thesis by blast
qed

theorem UndoHistory_invariant_witness:
  "\<exists>h. run_calls (UndoHistory_init :: nat UndoHistory)
          [Add_transaction ([1], [2]), Undo, Redo] = Inr h \<and>
     index h = 1 \<and> index h = int (length (undo_stack h)) - 1 \<and>
     snd (last (undo_stack h)) = None \<and> redo h = Inr h"
  using UndoHistory_invariant[of "[Add_transaction ([1::nat], [2]), Undo, Redo]"]
  by (simp add: UndoHistory_init_def add_transaction_def undo_def redo_def is_undo_def
      is_redo_def py_index_def reflect_transaction_def is_saved_def bind_result_def Let_def)

text \<open>
  C3. The specification and the comment above the class say that \<open>saved_index\<close> is -1 on a
  history that was never saved. The class attribute is \<open>saved_index = 0\<close> and
  \<open>__init__\<close> does not set it: a new history has \<open>saved_index = 0\<close> and \<open>is_saved()\<close>
  is true.
\<close>

theorem fresh_history_saved_index:
  "saved_index UndoHistory_init = 0 \<and> is_saved UndoHistory_init"
  by (simp add: UndoHistory_init_def is_saved_def)

section \<open>Properties of the canvas\<close>

text \<open>
  C6. \<open>in_bbox\<close> holds exactly when the point lies strictly between the left and
  right and strictly between the top and bottom coordinates of the box; a point on
  an edge is outside. \<open>in_bbox((0,0,10,10), (0,5))\<close> is false and
  \<open>in_bbox((0,0,10,10), (5,5))\<close> is true.
\<close>

theorem in_bbox_strict:
  "in_bbox (x0, y0, x1, y1) (x, y) = (x0 < x \<and> x < x1 \<and> y0 < y \<and> y < y1) \<and>
   \<not> in_bbox (x0, y0, x1, y1) (x0, y) \<and> \<not> in_bbox (x0, y0, x1, y1) (x1, y) \<and>
   \<not> in_bbox (x0, y0, x1, y1) (x, y0) \<and> \<not> in_bbox (x0, y0, x1, y1) (x, y1) \<and>
   \<not> in_bbox (0, 0, 10, 10) (0, 5) \<and> in_bbox (0, 0, 10, 10) (5, 5)"
  by simp

lemma on_scroll_dy:
  "dy (on_scroll cfg c s) =
     max 0 (min (dy c + s * mouse_scroll_sensitivity cfg)
               (max 0 (real_of_int (virtual_h c - height c))))"
  by (simp add: on_scroll_def Let_def max_def min_def)

lemma on_scroll_frame:
  "virtual_h (on_scroll cfg c s) = virtual_h c \<and> height (on_scroll cfg c s) = height c"
  by (simp add: on_scroll_def Let_def)

lemma foldl_on_scroll_frame:
  "virtual_h (foldl (on_scroll cfg) c ds) = virtual_h c \<and>
   height (foldl (on_scroll cfg) c ds) = height c"
  by (induction ds arbitrary: c) (simp_all add: on_scroll_frame)

lemma foldl_on_scroll_range:
  "0 \<le> dy (foldl (on_scroll cfg) c (ds @ [d])) \<and>
   dy (foldl (on_scroll cfg) c (ds @ [d])) \<le> max 0 (real_of_int (virtual_h c - height c))"
  by (simp add: on_scroll_dy foldl_on_scroll_frame)

text \<open>
  C5. \<open>on_scroll\<close> adds \<open>scroll_delta * sensitivity\<close> to \<open>dy\<close> and clamps the sum into
  \<open>[0, max(0, virtual_h - height)]\<close>. With \<open>virtual_h = 1000\<close> and \<open>height = 300\<close>,
  \<open>dy\<close> lies in \<open>[0, 700]\<close> after any sequence of scroll events.
\<close>

theorem on_scroll_clamps:
  "dy (on_scroll cfg c s) =
     max 0 (min (dy c + s * mouse_scroll_sensitivity cfg)
               (max 0 (real_of_int (virtual_h c - height c)))) \<and>
   (virtual_h c = 1000 \<and> height c = 300 \<longrightarrow>
      0 \<le> dy (foldl (on_scroll cfg) c (d # ds)) \<and>
      dy (foldl (on_scroll cfg) c (d # ds)) \<le> 700)"
proof (intro conjI impI)
  show "dy (on_scroll cfg c s) =
     max 0 (min (dy c + s * mouse_scroll_sensitivity cfg)
               (max 0 (real_of_int (virtual_h c - height c))))"
    by (rule on_scroll_dy)
next
  assume a: "virtual_h c = 1000 \<and> height c = 300"
  obtain es e where e: "d # ds = es @ [e]"
    by (metis append_butlast_last_id list.distinct(1))
  from foldl_on_scroll_range[of cfg c es e] a
  show "0 \<le> dy (foldl (on_scroll cfg) c (d # ds))"
    and "dy (foldl (on_scroll cfg) c (d # ds)) \<le> 700"
    by (simp_all only: e) simp_all
qed


theorem on_scroll_clamps_witness:
  "virtual_h (Canvas_init\<lparr>virtual_h := 1000, height := 300\<rparr>) = 1000 \<and>
   height (Canvas_init\<lparr>virtual_h := 1000, height := 300\<rparr>) = 300 \<and>
   dy (foldl (on_scroll \<lparr>canvas_border = 5, cell_height = 100, cell_width = 150,
              scroll_hover = 10, scroll_normal = 5, scroll_fg = [], addbutton_fg = [],
              mouse_scroll_sensitivity = 30\<rparr>)
         (Canvas_init\<lparr>virtual_h := 1000, height := 300\<rparr>) [- 4, 50, - 1]) = 670"
proof -
  let ?c = "Canvas_init\<lparr>virtual_h := 1000, height := 300\<rparr>"
  let ?cfg = "\<lparr>canvas_border = 5, cell_height = 100, cell_width = 150,
              scroll_hover = 10, scroll_normal = 5, scroll_fg = [], addbutton_fg = [],
              mouse_scroll_sensitivity = 30\<rparr>"
  have h: "virtual_h ?c = 1000 \<and> height ?c = 300" by simp
  have "dy (foldl (on_scroll ?cfg) ?c [- 4, 50, - 1]) = 670"
    by (simp add: on_scroll_def Canvas_init_def Let_def)
  with on_scroll_clamps[of ?cfg ?c 0 "- 4" "[50, - 1]"] h show ?thesis
    by simp
qed

text \<open>
  C7. \<open>ScrollObj.paint\<close> on a viewport of height \<open>h \<ge> 0\<close>: when \<open>virtual_h > h\<close>,
  \<open>coef = h / virtual_h\<close>, the thumb rectangle drawn has height \<open>h * coef\<close> and top
  \<open>dy + dy * coef\<close>, \<open>tbbox\<close> spans it, and \<open>active\<close> is true; otherwise \<open>tbbox\<close> is
  \<open>NO_BBOX\<close>, \<open>coef\<close> is 1, nothing is drawn and \<open>active\<close> is false.
\<close>

theorem ScrollObj_paint_geometry:
  assumes "0 \<le> height c"
  shows
   "(virtual_h c > height c \<longrightarrow>
      ScrollObj_paint cfg c s =
        Inr (s\<lparr>bbox := (real_of_int (width c) - real_of_int (scroll_hover cfg), 0,
                       real_of_int (width c), real_of_int (height c)),
               tbbox := (real_of_int (width c)
                           - real_of_int (if hover s then scroll_hover cfg else scroll_normal cfg),
                         dy c + dy c * (real_of_int (height c) / real_of_int (virtual_h c)),
                         real_of_int (width c),
                         dy c + dy c * (real_of_int (height c) / real_of_int (virtual_h c))
                           + real_of_int (height c)
                               * (real_of_int (height c) / real_of_int (virtual_h c))),
               coef := real_of_int (height c) / real_of_int (virtual_h c),
               active := True\<rparr>,
             [Set_source_rgba (scroll_fg cfg),
              Rectangle
                (real_of_int (width c)
                   - real_of_int (if hover s then scroll_hover cfg else scroll_normal cfg))
                (dy c + dy c * (real_of_int (height c) / real_of_int (virtual_h c)))
                (real_of_int (width c))
                (real_of_int (height c) * (real_of_int (height c) / real_of_int (virtual_h c))),
              Fill])) \<and>
    (\<not> virtual_h c > height c \<longrightarrow>
      ScrollObj_paint cfg c s =
        Inr (s\<lparr>bbox := (real_of_int (width c) - real_of_int (scroll_hover cfg), 0,
                       real_of_int (width c), real_of_int (height c)),
               tbbox := NO_BBOX, coef := 1, active := False\<rparr>, []))"
  using assms by (auto simp: ScrollObj_paint_def Let_def)

theorem ScrollObj_paint_geometry_witness:
  "(0::int) \<le> height (Canvas_init\<lparr>dy := 70, width := 400, height := 300, virtual_h := 1000\<rparr>) \<and>
   height (Canvas_init\<lparr>dy := 70, width := 400, height := 300, virtual_h := 1000\<rparr>)
     < virtual_h (Canvas_init\<lparr>dy := 70, width := 400, height := 300, virtual_h := 1000\<rparr>) \<and>
   ScrollObj_paint \<lparr>canvas_border = 5, cell_height = 100, cell_width = 150,
              scroll_hover = 10, scroll_normal = 5, scroll_fg = [0, 0, 0, 1], addbutton_fg = [],
              mouse_scroll_sensitivity = 30\<rparr>
     (Canvas_init\<lparr>dy := 70, width := 400, height := 300, virtual_h := 1000\<rparr>) ScrollObj_init =
     Inr (\<lparr>bbox = (390, 0, 400, 300), active = True, hover = False,
           tbbox = (395, 91, 400, 181), coef = 3 / 10\<rparr>,
          [Set_source_rgba [0, 0, 0, 1], Rectangle 395 91 400 90, Fill]) \<and>
   (0::int) \<le> height (Canvas_init\<lparr>width := 400, height := 300, virtual_h := 210\<rparr>) \<and>
   \<not> height (Canvas_init\<lparr>width := 400, height := 300, virtual_h := 210\<rparr>)
     < virtual_h (Canvas_init\<lparr>width := 400, height := 300, virtual_h := 210\<rparr>) \<and>
   ScrollObj_paint \<lparr>canvas_border = 5, cell_height = 100, cell_width = 150,
              scroll_hover = 10, scroll_normal = 5, scroll_fg = [0, 0, 0, 1], addbutton_fg = [],
              mouse_scroll_sensitivity = 30\<rparr>
     (Canvas_init\<lparr>width := 400, height := 300, virtual_h := 210\<rparr>) ScrollObj_init =
     Inr (\<lparr>bbox = (390, 0, 400, 300), active = False, hover = False,
           tbbox = (0, 0, 0, 0), coef = 1\<rparr>, [])"
proof -
  let ?cfg = "\<lparr>canvas_border = 5, cell_height = 100, cell_width = 150,
              scroll_hover = 10, scroll_normal = 5, scroll_fg = [0, 0, 0, 1], addbutton_fg = [],
              mouse_scroll_sensitivity = 30\<rparr>"
  let ?c1 = "Canvas_init\<lparr>dy := 70, width := 400, height := 300, virtual_h := 1000\<rparr>"
  let ?c2 = "Canvas_init\<lparr>width := 400, height := 300, virtual_h := 210\<rparr>"
  have h1: "0 \<le> height ?c1" and h2: "0 \<le> height ?c2" by simp_all
  from ScrollObj_paint_geometry[OF h1, of ?cfg ScrollObj_init]
       ScrollObj_paint_geometry[OF h2, of ?cfg ScrollObj_init]
  show ?thesis
    by (simp add: Canvas_init_def ScrollObj_init_def NO_BBOX_def)
qed

text \<open>
  C4. \<open>AddButtonObj.paint\<close> guards its division by \<open>cell_max\<close>; \<open>Canvas.paint\<close>
  does not: when the viewport is narrower than one cell plus the borders,
  \<open>cell_max\<close> is 0 and \<open>cell_num / self.cell_max\<close> raises ZeroDivisionError, for any
  number of cells. With \<open>cell_max = 0\<close> the button is laid out in row 0.
\<close>

theorem Canvas_paint_divides_by_zero:
  "Canvas_paint cfg (2 * canvas_border cfg, h) cell_num c = Inl ZeroDivisionError \<and>
   Canvas_paint \<lparr>canvas_border = 5, cell_height = 100, cell_width = 150,
              scroll_hover = 10, scroll_normal = 5, scroll_fg = [], addbutton_fg = [],
              mouse_scroll_sensitivity = 30\<rparr> (100, 300) 0 Canvas_init
     = Inl ZeroDivisionError \<and>
   fst (bbox (fst (AddButtonObj_paint cfg (c\<lparr>cell_max := 0\<rparr>) cell_num b)))
     = real_of_int (canvas_border cfg + int cell_num * cell_width cfg) + 10"
  by (simp add: Canvas_paint_def AddButtonObj_paint_def Let_def)

section \<open>Properties of the colour label\<close>











end
